theory Spec2Isabelle
  imports Complex_Main "HOL-Library.Multiset"
begin

section \<open>Numbers\<close>

text \<open>
  A JavaScript number is a finite value, one of the two infinities, or NaN. The finite
  values are the IEEE 754 binary64 numbers, and every arithmetic operator returns the
  exact result rounded to the nearest of them, ties to the even mantissa, overflowing to
  an infinity. The embedding keeps a finite value as the real number it denotes and
  applies the rounding after each operation. Zero carries no sign: a result that rounds
  to zero is \<open>0\<close>, and a zero divisor counts as \<open>+0\<close>.
\<close>

datatype jsnum = Num real | PosInf | NegInf | NaN

text \<open>
  The arithmetic is a parameter of every operation. \<open>Binary64\<close> is the arithmetic of
  the language. \<open>Exact\<close> leaves finite results unrounded: it is the reading of the
  numbers as reals.
\<close>

datatype arith = Exact | Binary64

text \<open>Rounding a real to the nearest integer, ties to the even one.\<close>

definition round_even :: "real \<Rightarrow> int" where
  "round_even q =
     (let f = \<lfloor>q\<rfloor>; d = q - of_int f
      in if d < 1/2 then f else if 1/2 < d then f + 1 else if even f then f else f + 1)"

text \<open>
  The binary exponent of a non-zero real: the \<open>e\<close> with \<open>2^e \<le> |x| < 2^(e+1)\<close>, and
  \<open>-1022\<close> for the smaller (subnormal) magnitudes. It is found by halving or doubling.
\<close>

function exponent_up :: "real \<Rightarrow> int \<Rightarrow> int" where
  "exponent_up x e = (if x < 2 then e else exponent_up (x / 2) (e + 1))"
  by pat_completeness auto
termination
  by (relation "measure (\<lambda>(x, e). nat \<lceil>x\<rceil>)") (auto, linarith)

function exponent_down :: "real \<Rightarrow> int \<Rightarrow> int" where
  "exponent_down x e =
     (if 1 \<le> x \<or> e \<le> - 1022 then e else exponent_down (2 * x) (e - 1))"
  by pat_completeness auto
termination
  by (relation "measure (\<lambda>(x, e). nat (e + 1022))") auto

declare exponent_up.simps [simp del] exponent_down.simps [simp del]

definition exponent :: "real \<Rightarrow> int" where
  "exponent x = (if 1 \<le> \<bar>x\<bar> then exponent_up \<bar>x\<bar> 0 else exponent_down \<bar>x\<bar> 0)"

text \<open>The spacing of the binary64 numbers around \<open>x\<close>: 53 bits of mantissa.\<close>

definition ulp :: "real \<Rightarrow> real" where
  "ulp x = 2 powi (exponent x - 52)"

text \<open>
  Rounding to binary64: the magnitude is rounded to a multiple of the spacing, and a
  result of \<open>2^1024\<close> or more is an infinity.
\<close>

definition round_binary64 :: "real \<Rightarrow> jsnum" where
  "round_binary64 x =
     (if x = 0 then Num 0
      else (let y = of_int (round_even (\<bar>x\<bar> / ulp x)) * ulp x
            in if 2 ^ 1024 \<le> y then (if 0 < x then PosInf else NegInf)
               else Num (if 0 < x then y else - y)))"

fun rnd :: "arith \<Rightarrow> real \<Rightarrow> jsnum" where
  "rnd Exact x = Num x"
| "rnd Binary64 x = round_binary64 x"


fun jneg :: "jsnum \<Rightarrow> jsnum" where
  "jneg (Num a) = Num (- a)"
| "jneg PosInf = NegInf"
| "jneg NegInf = PosInf"
| "jneg NaN = NaN"

text \<open>The operator \<open>a + b\<close> on numbers.\<close>

fun jadd :: "arith \<Rightarrow> jsnum \<Rightarrow> jsnum \<Rightarrow> jsnum" where
  "jadd md (Num a) (Num b) = rnd md (a + b)"
| "jadd md NaN b = NaN"
| "jadd md a NaN = NaN"
| "jadd md PosInf NegInf = NaN"
| "jadd md NegInf PosInf = NaN"
| "jadd md PosInf b = PosInf"
| "jadd md a PosInf = PosInf"
| "jadd md NegInf b = NegInf"
| "jadd md a NegInf = NegInf"

text \<open>The operator \<open>a - b\<close>.\<close>

definition jsub :: "arith \<Rightarrow> jsnum \<Rightarrow> jsnum \<Rightarrow> jsnum" where
  "jsub md a b = jadd md a (jneg b)"

text \<open>The operator \<open>a * b\<close>: an infinity times zero is NaN.\<close>

fun jmul :: "arith \<Rightarrow> jsnum \<Rightarrow> jsnum \<Rightarrow> jsnum" where
  "jmul md (Num a) (Num b) = rnd md (a * b)"
| "jmul md NaN b = NaN"
| "jmul md a NaN = NaN"
| "jmul md (Num a) PosInf = (if a = 0 then NaN else if 0 < a then PosInf else NegInf)"
| "jmul md (Num a) NegInf = (if a = 0 then NaN else if 0 < a then NegInf else PosInf)"
| "jmul md PosInf (Num b) = (if b = 0 then NaN else if 0 < b then PosInf else NegInf)"
| "jmul md NegInf (Num b) = (if b = 0 then NaN else if 0 < b then NegInf else PosInf)"
| "jmul md PosInf PosInf = PosInf"
| "jmul md PosInf NegInf = NegInf"
| "jmul md NegInf PosInf = NegInf"
| "jmul md NegInf NegInf = PosInf"

text \<open>
  The operator \<open>a / b\<close>: \<open>0 / 0\<close> is NaN, a non-zero finite value over zero is an
  infinity, a finite value over an infinity is zero.
\<close>

fun jdiv :: "arith \<Rightarrow> jsnum \<Rightarrow> jsnum \<Rightarrow> jsnum" where
  "jdiv md (Num a) (Num b) =
     (if b = 0 then (if a = 0 then NaN else if 0 < a then PosInf else NegInf)
      else rnd md (a / b))"
| "jdiv md NaN b = NaN"
| "jdiv md a NaN = NaN"
| "jdiv md (Num a) PosInf = Num 0"
| "jdiv md (Num a) NegInf = Num 0"
| "jdiv md PosInf (Num b) = (if 0 \<le> b then PosInf else NegInf)"
| "jdiv md NegInf (Num b) = (if 0 \<le> b then NegInf else PosInf)"
| "jdiv md PosInf PosInf = NaN"
| "jdiv md PosInf NegInf = NaN"
| "jdiv md NegInf PosInf = NaN"
| "jdiv md NegInf NegInf = NaN"

text \<open>The comparison \<open>a < b\<close>: false whenever an operand is NaN.\<close>

fun jlt :: "jsnum \<Rightarrow> jsnum \<Rightarrow> bool" where
  "jlt (Num a) (Num b) = (a < b)"
| "jlt NaN b = False"
| "jlt a NaN = False"
| "jlt a NegInf = False"
| "jlt PosInf b = False"
| "jlt NegInf b = True"
| "jlt a PosInf = True"

text \<open>The comparison \<open>a > b\<close>.\<close>

definition jgt :: "jsnum \<Rightarrow> jsnum \<Rightarrow> bool" where
  "jgt a b = jlt b a"

text \<open>
  \<open>Math.floor\<close> (the floor of a binary64 number is one, so nothing is rounded),
  \<open>Math.sqrt\<close>, and the square computed by \<open>Math.pow(a, 2)\<close> and \<open>a ** 2\<close>, taken as
  the rounded product.
\<close>

fun Math_floor :: "jsnum \<Rightarrow> jsnum" where
  "Math_floor (Num a) = Num (of_int \<lfloor>a\<rfloor>)"
| "Math_floor a = a"

fun Math_sqrt :: "arith \<Rightarrow> jsnum \<Rightarrow> jsnum" where
  "Math_sqrt md (Num a) = (if a < 0 then NaN else rnd md (sqrt a))"
| "Math_sqrt md PosInf = PosInf"
| "Math_sqrt md NegInf = NaN"
| "Math_sqrt md NaN = NaN"

definition Math_pow2 :: "arith \<Rightarrow> jsnum \<Rightarrow> jsnum" where
  "Math_pow2 md a = jmul md a a"

text \<open>
  \<open>Math.max(...)\<close> and \<open>Math.min(...)\<close> over an argument list: with no argument they are
  \<open>-Infinity\<close> and \<open>+Infinity\<close>, with a NaN argument they are NaN.
\<close>

definition jmax :: "jsnum \<Rightarrow> jsnum \<Rightarrow> jsnum" where
  "jmax a b = (if a = NaN \<or> b = NaN then NaN else if jlt a b then b else a)"

definition jmin :: "jsnum \<Rightarrow> jsnum \<Rightarrow> jsnum" where
  "jmin a b = (if a = NaN \<or> b = NaN then NaN else if jlt b a then b else a)"

definition Math_max :: "jsnum list \<Rightarrow> jsnum" where
  "Math_max args = foldl jmax NegInf args"

definition Math_min :: "jsnum list \<Rightarrow> jsnum" where
  "Math_min args = foldl jmin PosInf args"

section \<open>Arrays of numbers\<close>

text \<open>
  \<open>array.reduce(f, init)\<close> folds from the left. Reading \<open>array[i]\<close> outside the array
  gives \<open>undefined\<close>, which the arithmetic operators turn into NaN.
\<close>

definition reduce :: "('b \<Rightarrow> 'a \<Rightarrow> 'b) \<Rightarrow> 'b \<Rightarrow> 'a list \<Rightarrow> 'b" where
  "reduce f init array = foldl f init array"

definition num_at :: "jsnum list \<Rightarrow> int \<Rightarrow> jsnum" where
  "num_at array i = (if 0 \<le> i \<and> i < int (length array) then array ! nat i else NaN)"

section \<open>Errors and values\<close>

text \<open>
  The errors a call can raise: the language's own \<open>TypeError\<close> and the error classes the
  module declares.
\<close>

datatype error =
  TypeError | AuraError | AuraDOMError | AuraRandomError | AuraMathError | AuraCryptoError

text \<open>
  The values \<open>Random.In\<close> inspects. An object is the list of its own enumerable properties
  in the order \<open>Object.keys\<close> reports them.
\<close>

datatype jsval =
  Undefined | Null | Bool bool | Number jsnum | Str string
  | Array "jsval list" | Object "(string \<times> jsval) list"

fun typeof :: "jsval \<Rightarrow> string" where
  "typeof Undefined = ''undefined''"
| "typeof Null = ''object''"
| "typeof (Bool b) = ''boolean''"
| "typeof (Number n) = ''number''"
| "typeof (Str s) = ''string''"
| "typeof (Array xs) = ''object''"
| "typeof (Object ps) = ''object''"

text \<open>
  \<open>array[n]\<close> for a number \<open>n\<close>: the element when \<open>n\<close> is an integer inside the array,
  \<open>undefined\<close> otherwise.
\<close>

definition array_get :: "jsval list \<Rightarrow> jsnum \<Rightarrow> jsval" where
  "array_get array n =
     (case n of
        Num r \<Rightarrow>
          (if 0 \<le> r \<and> r < real (length array) \<and> real_of_int \<lfloor>r\<rfloor> = r
           then array ! nat \<lfloor>r\<rfloor> else Undefined)
      | _ \<Rightarrow> Undefined)"

text \<open>
  \<open>object[k]\<close> where \<open>k\<close> was read from the array of keys: an absent key
  (\<open>undefined\<close>) names the property \<open>"undefined"\<close>; a missing property reads as
  \<open>undefined\<close>.
\<close>

definition object_get :: "(string \<times> jsval) list \<Rightarrow> jsval \<Rightarrow> jsval" where
  "object_get props k =
     (case map_of props (case k of Str s \<Rightarrow> s | _ \<Rightarrow> ''undefined'') of
        Some v \<Rightarrow> v
      | None \<Rightarrow> Undefined)"

text \<open>
  \<open>s.charAt(pos)\<close>: the position is truncated toward zero (NaN counts as 0); outside the
  string the result is the empty string.
\<close>

definition charAt :: "string \<Rightarrow> jsnum \<Rightarrow> string" where
  "charAt s pos =
     (case pos of
        Num r \<Rightarrow>
          (let k = (if 0 \<le> r then \<lfloor>r\<rfloor> else \<lceil>r\<rceil>)
           in if 0 \<le> k \<and> k < int (length s) then [s ! nat k] else [])
      | NaN \<Rightarrow> (if 0 < length s then [s ! 0] else [])
      | _ \<Rightarrow> [])"

section \<open>Random\<close>

text \<open>
  Every method of \<open>Random\<close> calls \<open>Math.random()\<close> exactly once; the number drawn is the
  parameter \<open>u\<close>, a finite number with \<open>0 \<le> u < 1\<close>. The parameters \<open>min\<close> and
  \<open>max\<close> of the source are \<open>lo\<close> and \<open>hi\<close> here.
\<close>

definition Range :: "arith \<Rightarrow> real \<Rightarrow> jsnum \<Rightarrow> jsnum \<Rightarrow> jsnum" where
  "Range md u lo hi = jadd md (jmul md (Num u) (jsub md hi lo)) lo"

definition RangeInt :: "arith \<Rightarrow> real \<Rightarrow> jsnum \<Rightarrow> jsnum \<Rightarrow> jsnum" where
  "RangeInt md u lo hi = Math_floor (jadd md (jmul md (Num u) (jsub md hi lo)) lo)"

text \<open>
  \<open>Random.In\<close>: the \<open>switch\<close> on \<open>typeof haystack\<close>. The case \<open>"object"\<close> covers arrays,
  plain objects and \<open>null\<close>; for \<open>null\<close>, \<open>Object.keys\<close> raises a \<open>TypeError\<close>.
\<close>

definition In :: "arith \<Rightarrow> real \<Rightarrow> jsval \<Rightarrow> error + jsval" where
  "In md u haystack =
     (if typeof haystack = ''object'' then
        (case haystack of
           Array xs \<Rightarrow>
             Inr (array_get xs (Math_floor (Range md u (Num 0) (Num (real (length xs))))))
         | Object props \<Rightarrow>
             (let keys = map (\<lambda>p. Str (fst p)) props
              in if length keys = 0 then Inr Undefined
                 else Inr (object_get props
                        (array_get keys
                           (Math_floor (Range md u (Num 0) (Num (real (length keys))))))))
         | _ \<Rightarrow> Inl TypeError)
      else if typeof haystack = ''string'' then
        (case haystack of
           Str s \<Rightarrow>
             Inr (Str (charAt s (Math_floor (Range md u (Num 0) (Num (real (length s)))))))
         | _ \<Rightarrow> Inr Undefined)
      else Inr Undefined)"

text \<open>
  \<open>Random.WeightedSelect\<close>: the \<open>for\<close> loop over \<open>i\<close>, carrying \<open>cumulativeWeight\<close>.
  \<open>None\<close> is the loop running off the end of \<open>items\<close>, where the method returns
  \<open>undefined\<close>.
\<close>

function WeightedSelect_loop ::
  "arith \<Rightarrow> jsnum \<Rightarrow> 'a list \<Rightarrow> jsnum list \<Rightarrow> nat \<Rightarrow> jsnum \<Rightarrow> 'a option" where
  "WeightedSelect_loop md randomNum items weights i cumulativeWeight =
     (if i < length items then
        (let cumulativeWeight' = jadd md cumulativeWeight (num_at weights (int i))
         in if jlt randomNum cumulativeWeight' then Some (items ! i)
            else WeightedSelect_loop md randomNum items weights (i + 1) cumulativeWeight')
      else None)"
  by pat_completeness auto
termination
  by (relation "measure (\<lambda>(md, r, items, ws, i, c). length items - i)") auto

definition WeightedSelect :: "arith \<Rightarrow> real \<Rightarrow> 'a list \<Rightarrow> jsnum list \<Rightarrow> 'a option" where
  "WeightedSelect md u items weights =
     (let totalWeight = reduce (\<lambda>sum weight. jadd md sum weight) (Num 0) weights;
          randomNum = jmul md (Num u) totalWeight
      in WeightedSelect_loop md randomNum items weights 0 (Num 0))"

declare WeightedSelect_loop.simps [simp del]


section \<open>Objects on a store\<close>

text \<open>
  Arrays and vectors are objects: a variable holds a reference, and two references may
  name the same object. The store is the list of the objects allocated so far, a
  reference is a position in it, and creating an object (\<open>new\<close>, an array literal,
  \<open>map\<close>) appends to the store. A reference handed to a method is live: it is below the
  length of the store.
\<close>

type_synonym ref = nat

type_synonym 'a heap = "'a list"

definition alloc :: "'a heap \<Rightarrow> 'a \<Rightarrow> ref \<times> 'a heap" where
  "alloc h v = (length h, h @ [v])"

text \<open>\<open>[...array]\<close> builds a new array with the same elements.\<close>

definition spread_copy :: "jsnum list heap \<Rightarrow> ref \<Rightarrow> ref \<times> jsnum list heap" where
  "spread_copy h array = alloc h (h ! array)"

text \<open>\<open>array.map(f)\<close> builds a new array and leaves \<open>array\<close> as it is.\<close>

definition array_map ::
  "(jsnum \<Rightarrow> jsnum) \<Rightarrow> jsnum list heap \<Rightarrow> ref \<Rightarrow> ref \<times> jsnum list heap" where
  "array_map f h array = alloc h (map f (h ! array))"

text \<open>
  \<open>array.sort(cmp)\<close> sorts the array in place and returns the same reference. An element
  goes after another when \<open>cmp\<close> of the two is greater than zero. The language fixes the
  result for a comparator that orders the elements consistently and leaves the algorithm
  open; the model is a stable insertion sort.
\<close>

fun insert_by :: "('a \<Rightarrow> 'a \<Rightarrow> jsnum) \<Rightarrow> 'a \<Rightarrow> 'a list \<Rightarrow> 'a list" where
  "insert_by cmp v [] = [v]"
| "insert_by cmp v (w # ws) =
     (if jgt (cmp v w) (Num 0) then w # insert_by cmp v ws else v # w # ws)"

definition sort_by :: "('a \<Rightarrow> 'a \<Rightarrow> jsnum) \<Rightarrow> 'a list \<Rightarrow> 'a list" where
  "sort_by cmp vs = foldr (insert_by cmp) vs []"

definition array_sort ::
  "jsnum list heap \<Rightarrow> ref \<Rightarrow> (jsnum \<Rightarrow> jsnum \<Rightarrow> jsnum) \<Rightarrow> ref \<times> jsnum list heap" where
  "array_sort h array cmp = (array, h[array := sort_by cmp (h ! array)])"

section \<open>Arithma\<close>

text \<open>
  Each method takes the store and the reference of its array, and returns its number with
  the store it leaves. No method of \<open>Arithma\<close> has a \<open>throw\<close> or checks its argument, so
  none has an error result.
\<close>

definition Mean :: "arith \<Rightarrow> jsnum list heap \<Rightarrow> ref \<Rightarrow> jsnum \<times> jsnum list heap" where
  "Mean md h array =
     (let total = reduce (\<lambda>sum value. jadd md sum value) (Num 0) (h ! array)
      in (jdiv md total (Num (real (length (h ! array)))), h))"

text \<open>
  In \<open>Median\<close>, \<open>Math.floor(sorted.length / 2)\<close> is the integer quotient of the length
  by 2.
\<close>

definition Median :: "arith \<Rightarrow> jsnum list heap \<Rightarrow> ref \<Rightarrow> jsnum \<times> jsnum list heap" where
  "Median md h array =
     (let (copy, h1) = spread_copy h array;
          (sorted, h2) = array_sort h1 copy (\<lambda>a b. jsub md a b);
          len = int (length (h2 ! sorted));
          mid = len div 2
      in (if len mod 2 = 0
          then jdiv md (jadd md (num_at (h2 ! sorted) (mid - 1)) (num_at (h2 ! sorted) mid))
                 (Num 2)
          else num_at (h2 ! sorted) mid,
          h2))"

definition Variance :: "arith \<Rightarrow> jsnum list heap \<Rightarrow> ref \<Rightarrow> jsnum \<times> jsnum list heap" where
  "Variance md h array =
     (let (mean, h1) = Mean md h array;
          (squares, h2) = array_map (\<lambda>x. Math_pow2 md (jsub md x mean)) h1 array
      in Mean md h2 squares)"

definition StandardDeviation ::
  "arith \<Rightarrow> jsnum list heap \<Rightarrow> ref \<Rightarrow> jsnum \<times> jsnum list heap" where
  "StandardDeviation md h array =
     (let (variance, h1) = Variance md h array in (Math_sqrt md variance, h1))"

definition Max :: "jsnum list heap \<Rightarrow> ref \<Rightarrow> jsnum \<times> jsnum list heap" where
  "Max h array = (Math_max (h ! array), h)"

definition Min :: "jsnum list heap \<Rightarrow> ref \<Rightarrow> jsnum \<times> jsnum list heap" where
  "Min h array = (Math_min (h ! array), h)"

definition Sum :: "arith \<Rightarrow> jsnum list heap \<Rightarrow> ref \<Rightarrow> jsnum \<times> jsnum list heap" where
  "Sum md h array = (reduce (\<lambda>sum value. jadd md sum value) (Num 0) (h ! array), h)"

section \<open>Vector2 and Vector3\<close>

text \<open>
  A vector is an object with the fields \<open>x\<close>, \<open>y\<close> (and \<open>z\<close>); \<open>new Vector2(a, b)\<close>
  allocates one. The methods that build a vector return its reference and the store.
\<close>

datatype vector2 = Vector2 (x2: jsnum) (y2: jsnum)

datatype vector3 = Vector3 (x3: jsnum) (y3: jsnum) (z3: jsnum)



definition Vector2_Multiply ::
  "arith \<Rightarrow> vector2 heap \<Rightarrow> ref \<Rightarrow> jsnum \<Rightarrow> ref \<times> vector2 heap" where
  "Vector2_Multiply md h this scalar =
     alloc h (Vector2 (jmul md (x2 (h ! this)) scalar) (jmul md (y2 (h ! this)) scalar))"

definition Vector2_Divide ::
  "arith \<Rightarrow> vector2 heap \<Rightarrow> ref \<Rightarrow> jsnum \<Rightarrow> ref \<times> vector2 heap" where
  "Vector2_Divide md h this scalar =
     alloc h (Vector2 (jdiv md (x2 (h ! this)) scalar) (jdiv md (y2 (h ! this)) scalar))"

definition Vector2_Length :: "arith \<Rightarrow> vector2 heap \<Rightarrow> ref \<Rightarrow> jsnum" where
  "Vector2_Length md h this =
     Math_sqrt md (jadd md (Math_pow2 md (x2 (h ! this))) (Math_pow2 md (y2 (h ! this))))"

text \<open>
  A call \<open>this.m(...)\<close> first reads the property named \<open>m\<close>. Property names are
  case-sensitive; a name that neither the object nor its class defines reads as
  \<open>undefined\<close>, and calling \<open>undefined\<close> raises a \<open>TypeError\<close>. The two tables give, by
  name, the methods of the class that take no argument and return a number, and those
  that take a scalar and return a vector.
\<close>

definition Vector2_number_method ::
  "arith \<Rightarrow> string \<Rightarrow> (vector2 heap \<Rightarrow> ref \<Rightarrow> jsnum) option" where
  "Vector2_number_method md name =
     (if name = ''Length'' then Some (Vector2_Length md) else None)"

definition Vector2_scalar_method ::
  "arith \<Rightarrow> string \<Rightarrow> (vector2 heap \<Rightarrow> ref \<Rightarrow> jsnum \<Rightarrow> ref \<times> vector2 heap) option" where
  "Vector2_scalar_method md name =
     (if name = ''Multiply'' then Some (Vector2_Multiply md)
      else if name = ''Divide'' then Some (Vector2_Divide md)
      else None)"

text \<open>\<open>Normalize\<close> calls \<open>this.length()\<close> and \<open>this.divide(len)\<close>, in lower case.\<close>

definition Vector2_Normalize ::
  "arith \<Rightarrow> vector2 heap \<Rightarrow> ref \<Rightarrow> (error + ref) \<times> vector2 heap" where
  "Vector2_Normalize md h this =
     (case Vector2_number_method md ''length'' of
        None \<Rightarrow> (Inl TypeError, h)
      | Some length_method \<Rightarrow>
          (let len = length_method h this
           in if jgt len (Num 0) then
                (case Vector2_scalar_method md ''divide'' of
                   None \<Rightarrow> (Inl TypeError, h)
                 | Some divide_method \<Rightarrow>
                     (let (r, h1) = divide_method h this len in (Inr r, h1)))
              else (let (r, h1) = alloc h (Vector2 (Num 0) (Num 0)) in (Inr r, h1))))"



definition Vector3_Multiply ::
  "arith \<Rightarrow> vector3 heap \<Rightarrow> ref \<Rightarrow> jsnum \<Rightarrow> ref \<times> vector3 heap" where
  "Vector3_Multiply md h this scalar =
     alloc h (Vector3 (jmul md (x3 (h ! this)) scalar) (jmul md (y3 (h ! this)) scalar)
                      (jmul md (z3 (h ! this)) scalar))"

definition Vector3_Divide ::
  "arith \<Rightarrow> vector3 heap \<Rightarrow> ref \<Rightarrow> jsnum \<Rightarrow> ref \<times> vector3 heap" where
  "Vector3_Divide md h this scalar =
     alloc h (Vector3 (jdiv md (x3 (h ! this)) scalar) (jdiv md (y3 (h ! this)) scalar)
                      (jdiv md (z3 (h ! this)) scalar))"

definition Vector3_Length :: "arith \<Rightarrow> vector3 heap \<Rightarrow> ref \<Rightarrow> jsnum" where
  "Vector3_Length md h this =
     Math_sqrt md
       (jadd md (jadd md (Math_pow2 md (x3 (h ! this))) (Math_pow2 md (y3 (h ! this))))
                (Math_pow2 md (z3 (h ! this))))"

definition Vector3_number_method ::
  "arith \<Rightarrow> string \<Rightarrow> (vector3 heap \<Rightarrow> ref \<Rightarrow> jsnum) option" where
  "Vector3_number_method md name =
     (if name = ''Length'' then Some (Vector3_Length md) else None)"

definition Vector3_scalar_method ::
  "arith \<Rightarrow> string \<Rightarrow> (vector3 heap \<Rightarrow> ref \<Rightarrow> jsnum \<Rightarrow> ref \<times> vector3 heap) option" where
  "Vector3_scalar_method md name =
     (if name = ''Multiply'' then Some (Vector3_Multiply md)
      else if name = ''Divide'' then Some (Vector3_Divide md)
      else None)"

definition Vector3_Normalize ::
  "arith \<Rightarrow> vector3 heap \<Rightarrow> ref \<Rightarrow> (error + ref) \<times> vector3 heap" where
  "Vector3_Normalize md h this =
     (case Vector3_number_method md ''length'' of
        None \<Rightarrow> (Inl TypeError, h)
      | Some length_method \<Rightarrow>
          (let len = length_method h this
           in if jgt len (Num 0) then
                (case Vector3_scalar_method md ''divide'' of
                   None \<Rightarrow> (Inl TypeError, h)
                 | Some divide_method \<Rightarrow>
                     (let (r, h1) = divide_method h this len in (Inr r, h1)))
              else (let (r, h1) = alloc h (Vector3 (Num 0) (Num 0) (Num 0)) in (Inr r, h1))))"

section \<open>Properties of the rounding\<close>

subsection \<open>The exponent\<close>

lemma exponent_up_log: "1 \<le> x \<Longrightarrow> exponent_up x e = e + \<lfloor>log 2 x\<rfloor>"
proof (induction x e rule: exponent_up.induct)
  case (1 x e)
  show ?case
  proof (cases "x < 2")
    case True
    have "\<lfloor>log 2 x\<rfloor> = 0"
      using True 1(2) by (subst floor_log_eq_powr_iff) auto
    with True show ?thesis by (subst exponent_up.simps) simp
  next
    case False
    then have h: "1 \<le> x / 2" by simp
    have "log 2 x = log 2 (x / 2) + 1"
      using False by (simp add: log_divide)
    then have "\<lfloor>log 2 x\<rfloor> = \<lfloor>log 2 (x / 2)\<rfloor> + 1" by simp
    with 1(1) [OF False h] False show ?thesis
      by (subst exponent_up.simps) simp
  qed
qed

lemma exponent_down_log:
  "0 < x \<Longrightarrow> x < 2 \<Longrightarrow> - 1022 \<le> e \<Longrightarrow> exponent_down x e = max (e + \<lfloor>log 2 x\<rfloor>) (- 1022)"
proof (induction x e rule: exponent_down.induct)
  case (1 x e)
  show ?case
  proof (cases "1 \<le> x")
    case True
    have "\<lfloor>log 2 x\<rfloor> = 0"
      using True 1(3) by (subst floor_log_eq_powr_iff) auto
    with True 1(4) show ?thesis by (subst exponent_down.simps) simp
  next
    case False
    then have x1: "x < 1" by simp
    have neg: "\<lfloor>log 2 x\<rfloor> < 0"
    proof -
      have "log 2 x < 0" using x1 1(2) by simp
      then show ?thesis by linarith
    qed
    show ?thesis
    proof (cases "e \<le> - 1022")
      case True
      with neg 1(4) show ?thesis by (subst exponent_down.simps) simp
    next
      case e: False
      have c: "\<not> (1 \<le> x \<or> e \<le> - 1022)" using False e by simp
      have "log 2 (2 * x) = log 2 x + 1" using 1(2) by (simp add: log_mult)
      then have fl: "\<lfloor>log 2 (2 * x)\<rfloor> = \<lfloor>log 2 x\<rfloor> + 1" by simp
      have "exponent_down (2 * x) (e - 1) = max (e - 1 + \<lfloor>log 2 (2 * x)\<rfloor>) (- 1022)"
        using 1(1) [OF c] 1(2) x1 e by simp
      with fl c show ?thesis by (subst exponent_down.simps) simp
    qed
  qed
qed

lemma exponent_log: "x \<noteq> 0 \<Longrightarrow> exponent x = max \<lfloor>log 2 \<bar>x\<bar>\<rfloor> (- 1022)"
proof (cases "1 \<le> \<bar>x\<bar>")
  case True
  assume "x \<noteq> 0"
  have "0 \<le> log 2 \<bar>x\<bar>" using True by simp
  then have "0 \<le> \<lfloor>log 2 \<bar>x\<bar>\<rfloor>" by simp
  then have "max \<lfloor>log 2 \<bar>x\<bar>\<rfloor> (- 1022) = \<lfloor>log 2 \<bar>x\<bar>\<rfloor>" by linarith
  with True show ?thesis by (simp add: exponent_def exponent_up_log)
next
  case False
  assume "x \<noteq> 0"
  with False show ?thesis by (simp add: exponent_def exponent_down_log)
qed

lemma p2_pos [simp]: "0 < (2::real) powi k" by simp

lemma p2_add: "(2::real) powi (a + b) = 2 powi a * 2 powi b"
  by (simp add: power_int_add)

lemma p2_mono: "a \<le> b \<Longrightarrow> (2::real) powi a \<le> 2 powi b"
  by (simp add: power_int_increasing)

lemma p2_strict: "a < b \<Longrightarrow> (2::real) powi a < 2 powi b"
  by (simp add: power_int_strict_increasing)

lemma p2_less_iff: "((2::real) powi a < 2 powi b) = (a < b)"
  using p2_strict [of a b] p2_mono [of b a] by (cases "a < b") auto

lemma p2_powr: "(2::real) powr (real_of_int k) = 2 powi k"
  by (simp add: powr_real_of_int power_int_def power_one_over inverse_eq_divide)

lemma p2_53: "2 ^ 53 * (2::real) powi (e - 52) = 2 powi (e + 1)"
proof -
  have eq: "e + 1 = 53 + (e - 52)" by simp
  have "(2::real) powi (e + 1) = 2 powi 53 * 2 powi (e - 52)"
    by (subst eq) (rule p2_add)
  then show ?thesis by simp
qed

lemma p2_52: "2 ^ 52 * (2::real) powi (e - 52) = 2 powi e"
proof -
  have eq: "e = 52 + (e - 52)" by simp
  have "(2::real) powi e = 2 powi 52 * 2 powi (e - 52)"
    by (subst eq) (rule p2_add)
  then show ?thesis by simp
qed

lemma quot_eq: "(a::real) = c * b \<Longrightarrow> 0 < b \<Longrightarrow> a / b = c"
  by simp

lemma exponent_bounds:
  assumes "x \<noteq> 0"
  shows "- 1022 \<le> exponent x" and "\<bar>x\<bar> < 2 powi (exponent x + 1)"
    and "- 1022 < exponent x \<Longrightarrow> 2 powi (exponent x) \<le> \<bar>x\<bar>"
proof -
  let ?k = "\<lfloor>log 2 \<bar>x\<bar>\<rfloor>"
  have pos: "0 < \<bar>x\<bar>" using assms by simp
  have "2 powr (real_of_int ?k) \<le> \<bar>x\<bar> \<and> \<bar>x\<bar> < 2 powr (real_of_int ?k + 1)"
    using floor_log_eq_powr_iff [OF pos, of 2 ?k] by simp
  then have k: "2 powi ?k \<le> \<bar>x\<bar>" "\<bar>x\<bar> < 2 powi (?k + 1)"
    using p2_powr [of ?k] p2_powr [of "?k + 1"] by simp_all
  have e: "exponent x = max ?k (- 1022)" using assms by (rule exponent_log)
  show "- 1022 \<le> exponent x" using e by simp
  have "2 powi (?k + 1) \<le> (2::real) powi (exponent x + 1)"
    using e by (intro p2_mono) simp
  with k(2) show "\<bar>x\<bar> < 2 powi (exponent x + 1)" by linarith
  show "2 powi (exponent x) \<le> \<bar>x\<bar>" if "- 1022 < exponent x"
  proof -
    from that e have "exponent x = ?k" by linarith
    with k(1) show ?thesis by simp
  qed
qed

lemma exponent_eq:
  assumes "x \<noteq> 0" and "- 1022 \<le> e" and "\<bar>x\<bar> < 2 powi (e + 1)"
    and "2 powi e \<le> \<bar>x\<bar> \<or> e = - 1022"
  shows "exponent x = e"
proof -
  note b = exponent_bounds [OF assms(1)]
  have le: "exponent x \<le> e"
  proof (rule ccontr)
    assume "\<not> exponent x \<le> e"
    then have lt: "e + 1 \<le> exponent x" by simp
    then have "- 1022 < exponent x" using assms(2) by simp
    from b(3) [OF this] have "2 powi (exponent x) \<le> \<bar>x\<bar>" .
    moreover have "(2::real) powi (e + 1) \<le> 2 powi (exponent x)" using lt by (rule p2_mono)
    ultimately show False using assms(3) by linarith
  qed
  have ge: "e \<le> exponent x"
  proof (rule ccontr)
    assume "\<not> e \<le> exponent x"
    then have lt: "exponent x + 1 \<le> e" by simp
    with b(1) have "e \<noteq> - 1022" by simp
    with assms(4) have "2 powi e \<le> \<bar>x\<bar>" by simp
    moreover have "(2::real) powi (exponent x + 1) \<le> 2 powi e" using lt by (rule p2_mono)
    ultimately show False using b(2) by linarith
  qed
  from le ge show ?thesis by simp
qed

lemma exponent_minus [simp]: "exponent (- x) = exponent x"
  by (simp add: exponent_def)

lemma ulp_minus [simp]: "ulp (- x) = ulp x"
  by (simp add: ulp_def)

lemma ulp_pos [simp]: "0 < ulp x"
  by (simp add: ulp_def)

subsection \<open>Rounding to the nearest integer\<close>

lemma round_even_int [simp]: "round_even (of_int k) = k"
  by (simp add: round_even_def)

lemma round_even_le: "q \<le> of_int k \<Longrightarrow> round_even q \<le> k"
proof -
  assume q: "q \<le> of_int k"
  show ?thesis
  proof (cases "q = of_int k")
    case True
    then show ?thesis by simp
  next
    case False
    with q have "q < of_int k" by simp
    then have "\<lfloor>q\<rfloor> < k" by (simp add: floor_less_iff)
    then show ?thesis by (simp add: round_even_def Let_def)
  qed
qed

lemma round_even_ge: "of_int k \<le> q \<Longrightarrow> k \<le> round_even q"
proof -
  assume "of_int k \<le> q"
  then have "k \<le> \<lfloor>q\<rfloor>" by (simp add: le_floor_iff)
  then show ?thesis by (simp add: round_even_def Let_def)
qed

lemma round_even_below_half: "q < of_int k - 1/2 \<Longrightarrow> round_even q \<le> k - 1"
proof -
  assume q: "q < of_int k - 1/2"
  then have "q < of_int k" by simp
  then have f: "\<lfloor>q\<rfloor> \<le> k - 1" by (simp add: floor_less_iff)
  show ?thesis
  proof (cases "\<lfloor>q\<rfloor> = k - 1")
    case True
    then have "q - of_int \<lfloor>q\<rfloor> < 1/2" using q by simp
    with True show ?thesis by (simp add: round_even_def Let_def)
  next
    case False
    with f have "\<lfloor>q\<rfloor> + 1 \<le> k - 1" by simp
    then show ?thesis by (simp add: round_even_def Let_def)
  qed
qed

subsection \<open>The numbers of binary64 are fixed points of the rounding\<close>

lemma round_binary64_pos:
  assumes "0 < x"
  shows "round_binary64 x =
     (if 2 ^ 1024 \<le> of_int (round_even (x / ulp x)) * ulp x then PosInf
      else Num (of_int (round_even (x / ulp x)) * ulp x))"
  using assms by (simp add: round_binary64_def Let_def)

lemma round_binary64_minus:
  "round_binary64 (- x) = (case round_binary64 x of Num y \<Rightarrow> Num (- y) | PosInf \<Rightarrow> NegInf | NegInf \<Rightarrow> PosInf | NaN \<Rightarrow> NaN)"
  by (simp add: round_binary64_def Let_def)

lemma round_binary64_grid:
  assumes e: "- 1022 \<le> e" and k: "0 < k" "k \<le> 2 ^ 53" and n: "2 ^ 52 \<le> k \<or> e = - 1022"
    and fin: "of_int k * 2 powi (e - 52) < (2::real) ^ 1024"
  shows "round_binary64 (of_int k * 2 powi (e - 52)) = Num (of_int k * 2 powi (e - 52))"
proof -
  let ?U = "(2::real) powi (e - 52)"
  let ?y = "of_int k * ?U"
  have ypos: "0 < ?y" using k(1) by simp
  have U53: "2 ^ 53 * ?U = 2 powi (e + 1)" by (rule p2_53)
  have U52: "2 ^ 52 * ?U = 2 powi e" by (rule p2_52)
  show ?thesis
  proof (cases "k = 2 ^ 53")
    case True
    then have y: "?y = 2 powi (e + 1)" using U53 by simp
    have ex: "exponent ?y = e + 1"
    proof (rule exponent_eq)
      show "?y \<noteq> 0" using k(1) by simp
      show "- 1022 \<le> e + 1" using e by simp
      show "\<bar>?y\<bar> < 2 powi (e + 1 + 1)" unfolding y using p2_strict [of "e + 1" "e + 1 + 1"] by simp
      show "2 powi (e + 1) \<le> \<bar>?y\<bar> \<or> e + 1 = - 1022" unfolding y by simp
    qed
    have u: "ulp ?y = 2 powi (e + 1 - 52)" by (simp add: ulp_def ex)
    have V: "2 ^ 52 * (2::real) powi (e + 1 - 52) = 2 powi (e + 1)"
      by (rule p2_52)
    have yu: "?y = of_int (2 ^ 52) * ulp ?y"
      by (simp only: u) (simp only: y V of_int_numeral of_int_power)
    have q: "?y / ulp ?y = of_int (2 ^ 52)"
      using yu by (rule quot_eq) simp
    have r: "round_even (?y / ulp ?y) = 2 ^ 52" by (simp only: q round_even_int)
    have rt: "of_int (round_even (?y / ulp ?y)) * ulp ?y = ?y"
      by (simp only: r yu [symmetric])
    show ?thesis using fin by (simp add: round_binary64_pos [OF ypos] rt)
  next
    case False
    with k(2) have klt: "k < 2 ^ 53" by simp
    have ex: "exponent ?y = e"
    proof (rule exponent_eq)
      show "?y \<noteq> 0" using k(1) by simp
      show "- 1022 \<le> e" by fact
      have "real_of_int k < real_of_int (2 ^ 53)" using klt by (simp only: of_int_less_iff)
      then have kr: "real_of_int k < 2 ^ 53" by simp
      have "?y < 2 ^ 53 * ?U" using kr by (rule mult_strict_right_mono) simp
      then have "?y < 2 powi (e + 1)" by (simp only: U53)
      then show "\<bar>?y\<bar> < 2 powi (e + 1)" using ypos by (simp only: abs_of_pos)
      show "2 powi e \<le> \<bar>?y\<bar> \<or> e = - 1022"
      proof (cases "e = - 1022")
        case True then show ?thesis by simp
      next
        case False
        with n have "2 ^ 52 \<le> k" by simp
        then have "real_of_int (2 ^ 52) \<le> real_of_int k" by (simp only: of_int_le_iff)
        then have "(2::real) ^ 52 \<le> of_int k" by simp
        then have "2 ^ 52 * ?U \<le> ?y" by (rule mult_right_mono) simp
        then have "2 powi e \<le> ?y" by (simp only: U52)
        then show ?thesis using ypos by (simp only: abs_of_pos) simp
      qed
    qed
    have u: "ulp ?y = ?U" by (simp add: ulp_def ex)
    have rt: "of_int (round_even (?y / ulp ?y)) * ulp ?y = ?y"
      unfolding u by simp
    show ?thesis using fin by (simp add: round_binary64_pos [OF ypos] rt)
  qed
qed

lemma round_even_mantissa:
  assumes "0 < x"
  shows "0 \<le> round_even (x / ulp x)" and "round_even (x / ulp x) \<le> 2 ^ 53"
    and "- 1022 < exponent x \<Longrightarrow> 2 ^ 52 \<le> round_even (x / ulp x)"
proof -
  let ?e = "exponent x"
  let ?U = "(2::real) powi (?e - 52)"
  have x0: "x \<noteq> 0" using assms by simp
  have u: "ulp x = ?U" by (simp add: ulp_def)
  have ax: "\<bar>x\<bar> = x" using assms by simp
  note b = exponent_bounds [OF x0]
  have "0 \<le> x / ?U" using assms by simp
  then have "of_int 0 \<le> x / ?U" by simp
  then show "0 \<le> round_even (x / ulp x)" unfolding u by (rule round_even_ge)
  have "x < 2 ^ 53 * ?U" using b(2) ax by (simp only: p2_53)
  then have "x / ?U < 2 ^ 53" by (simp add: pos_divide_less_eq)
  then have "x / ?U \<le> of_int (2 ^ 53)" by simp
  then show "round_even (x / ulp x) \<le> 2 ^ 53" unfolding u by (rule round_even_le)
  show "2 ^ 52 \<le> round_even (x / ulp x)" if "- 1022 < exponent x"
  proof -
    have "2 ^ 52 * ?U \<le> x" using b(3) [OF that] ax by (simp only: p2_52)
    then have "2 ^ 52 \<le> x / ?U" by (simp add: pos_le_divide_eq)
    then have "of_int (2 ^ 52) \<le> x / ?U" by simp
    then show ?thesis unfolding u by (rule round_even_ge)
  qed
qed

lemma round_binary64_idem_pos:
  assumes "0 < x" and "round_binary64 x = Num y"
  shows "round_binary64 y = Num y"
proof -
  let ?m = "round_even (x / ulp x)"
  let ?e = "exponent x"
  note m = round_even_mantissa [OF assms(1)]
  have x0: "x \<noteq> 0" using assms(1) by simp
  have u: "ulp x = 2 powi (?e - 52)" by (simp add: ulp_def)
  from assms(2) have fin: "\<not> 2 ^ 1024 \<le> of_int ?m * ulp x" and y: "y = of_int ?m * ulp x"
    by (auto simp: round_binary64_pos [OF assms(1)] split: if_splits)
  show ?thesis
  proof (cases "?m = 0")
    case True
    with y show ?thesis by (simp add: round_binary64_def)
  next
    case False
    with m(1) have pos: "0 < ?m" by simp
    have n: "2 ^ 52 \<le> ?m \<or> ?e = - 1022"
      using m(3) exponent_bounds(1) [OF x0] by force
    have f: "of_int ?m * 2 powi (?e - 52) < (2::real) ^ 1024"
      using fin u by simp
    have "round_binary64 (of_int ?m * 2 powi (?e - 52)) = Num (of_int ?m * 2 powi (?e - 52))"
      using exponent_bounds(1) [OF x0] pos m(2) n f by (rule round_binary64_grid)
    then show ?thesis by (simp only: y u)
  qed
qed

lemma round_binary64_idem:
  assumes "round_binary64 x = Num y"
  shows "round_binary64 y = Num y"
proof -
  consider "x = 0" | "0 < x" | "x < 0" by linarith
  then show ?thesis
  proof cases
    case 1
    with assms show ?thesis by (simp add: round_binary64_def)
  next
    case 2
    then show ?thesis using assms by (rule round_binary64_idem_pos)
  next
    case 3
    then have p: "0 < - x" by simp
    have "round_binary64 x = round_binary64 (- (- x))" by simp
    also have "\<dots> = (case round_binary64 (- x) of Num z \<Rightarrow> Num (- z) | PosInf \<Rightarrow> NegInf
        | NegInf \<Rightarrow> PosInf | NaN \<Rightarrow> NaN)"
      by (rule round_binary64_minus)
    finally obtain z where z: "round_binary64 (- x) = Num z" "y = - z"
      using assms by (auto split: jsnum.splits)
    from round_binary64_idem_pos [OF p z(1)] have "round_binary64 z = Num z" .
    then show ?thesis by (simp add: z(2) round_binary64_minus)
  qed
qed

subsection \<open>Natural numbers below \<open>2^53\<close>, and the largest number below 1\<close>

lemma p2_nat_diff: "E \<le> 52 \<Longrightarrow> real_of_int (2 ^ (52 - E)) * 2 powi (int E - 52) = 1"
proof -
  assume E: "E \<le> 52"
  have "(2::real) powi (int (52 - E)) * 2 powi (int E - 52) = 2 powi (int (52 - E) + (int E - 52))"
    by (rule p2_add [symmetric])
  also have "int (52 - E) + (int E - 52) = 0" using E by simp
  finally show ?thesis by simp
qed

lemma nat_on_grid:
  assumes "E \<le> 52"
  shows "real n = real_of_int (int n * 2 ^ (52 - E)) * 2 powi (int E - 52)"
proof -
  have "real_of_int (int n * 2 ^ (52 - E)) * 2 powi (int E - 52)
      = real n * (real_of_int (2 ^ (52 - E)) * 2 powi (int E - 52))"
    by (simp only: of_int_mult of_int_of_nat_eq mult.assoc)
  also have "\<dots> = real n" by (simp only: p2_nat_diff [OF assms] mult_1_right)
  finally show ?thesis by simp
qed

lemma nat_binade:
  assumes "0 < (n::nat)" "n < 2 ^ 53"
  obtains E where "E \<le> 52" "2 ^ E \<le> n" "n < 2 ^ (E + 1)"
proof -
  from ex_power_ivl1 [of 2 n] assms(1) obtain E where E: "2 ^ E \<le> n" "n < 2 ^ (E + 1)"
    by auto
  have "(2::nat) ^ E < 2 ^ 53" using E(1) assms(2) by linarith
  then have "E < 53" by (simp only: power_strict_increasing_iff [of 2] one_less_numeral_iff semiring_norm)
  then have "E \<le> 52" by simp
  with E that show thesis by blast
qed

lemma round_binary64_nat:
  assumes "n < 2 ^ 53"
  shows "round_binary64 (real n) = Num (real n)"
proof (cases "n = 0")
  case True
  then show ?thesis by (simp add: round_binary64_def)
next
  case False
  then have pos: "0 < n" by simp
  from nat_binade [OF pos assms] obtain E where E: "E \<le> 52" "2 ^ E \<le> n" "n < 2 ^ (E + 1)" .
  let ?K = "int n * 2 ^ (52 - E)"
  have g: "real n = real_of_int ?K * 2 powi (int E - 52)" using E(1) by (rule nat_on_grid)
  have pw: "(2::int) ^ E * 2 ^ (52 - E) = 2 ^ 52" "(2::int) ^ (E + 1) * 2 ^ (52 - E) = 2 ^ 53"
    using E(1) by (simp_all only: power_add [symmetric]) simp_all
  have "int (2 ^ E) \<le> int n" using E(2) by (simp only: of_nat_le_iff)
  then have "2 ^ E * 2 ^ (52 - E) \<le> ?K" by (intro mult_right_mono) simp_all
  then have lo: "2 ^ 52 \<le> ?K" by (simp only: pw)
  have "int n < int (2 ^ (E + 1))" using E(3) by (simp only: of_nat_less_iff)
  then have "?K < 2 ^ (E + 1) * 2 ^ (52 - E)" by (intro mult_strict_right_mono) simp_all
  then have hi: "?K < 2 ^ 53" by (simp only: pw)
  have fin: "real_of_int ?K * 2 powi (int E - 52) < (2::real) ^ 1024"
  proof -
    have "real n < 2 ^ 53" using assms by (metis of_nat_less_iff of_nat_numeral of_nat_power)
    also have "(2::real) ^ 53 < 2 ^ 1024" by simp
    finally show ?thesis by (simp only: g [symmetric])
  qed
  have "round_binary64 (real_of_int ?K * 2 powi (int E - 52)) = Num (real_of_int ?K * 2 powi (int E - 52))"
  proof (rule round_binary64_grid)
    show "- 1022 \<le> int E" by simp
    show "0 < ?K" using lo by simp
    show "?K \<le> 2 ^ 53" using hi by simp
    show "2 ^ 52 \<le> ?K \<or> int E = - 1022" using lo by simp
    show "real_of_int ?K * 2 powi (int E - 52) < 2 ^ 1024" by (rule fin)
  qed
  then show ?thesis by (simp only: g [symmetric])
qed

lemma below_one:
  assumes "round_binary64 u = Num u" "u < 1"
  shows "u \<le> 1 - 2 powi (- 53)"
proof (cases "u < 1/2")
  case True
  have "(2::real) powi (- 53) \<le> 2 powi (- 1)" by (rule p2_mono) simp
  then have "(2::real) powi (- 53) \<le> 1/2" by simp
  with True show ?thesis by linarith
next
  case False
  then have pos: "0 < u" by simp
  have ex: "exponent u = - 1"
  proof (rule exponent_eq)
    show "u \<noteq> 0" using pos by simp
    show "\<bar>u\<bar> < 2 powi (- 1 + 1)" using assms(2) pos by simp
    show "2 powi (- 1) \<le> \<bar>u\<bar> \<or> (- 1 :: int) = - 1022" using False pos by simp
  qed simp
  have U: "ulp u = 2 powi (- 53)" by (simp add: ulp_def ex)
  define m where "m = round_even (u / ulp u)"
  from assms(1) have "u = of_int (round_even (u / ulp u)) * ulp u"
    by (auto simp: round_binary64_pos [OF pos] split: if_splits)
  then have "u = of_int m * ulp u" by (simp only: m_def)
  then have y: "u = of_int m * 2 powi (- 53)" by (simp only: U)
  have one: "2 ^ 53 * (2::real) powi (- 53) = 1"
    using p2_53 [of "- 1"] by simp
  have "of_int m * (2::real) powi (- 53) < 1" using y assms(2) by linarith
  then have "of_int m * (2::real) powi (- 53) < 2 ^ 53 * 2 powi (- 53)" by (simp only: one)
  then have "real_of_int m < 2 ^ 53" by (simp only: mult_less_cancel_right_pos [OF p2_pos])
  then have "real_of_int m < real_of_int (2 ^ 53)" by simp
  then have "m < 2 ^ 53" by (simp only: of_int_less_iff)
  then have "m \<le> 2 ^ 53 - 1" by simp
  then have "real_of_int m \<le> real_of_int (2 ^ 53 - 1)" by (simp only: of_int_le_iff)
  then have "real_of_int m \<le> 2 ^ 53 - 1" by simp
  then have "real_of_int m * 2 powi (- 53) \<le> (2 ^ 53 - 1) * 2 powi (- 53)"
    by (rule mult_right_mono) simp
  also have "\<dots> = 1 - 2 powi (- 53)" using one by (simp add: algebra_simps)
  finally show ?thesis using y by simp
qed

subsection \<open>A draw times a length stays below the length\<close>

lemma p2_half: "(2::real) powi (e - 53) * 2 = 2 powi (e - 52)"
proof -
  have eq: "e - 52 = (e - 53) + 1" by simp
  show ?thesis by (subst eq) (simp only: p2_add power_int_1_right)
qed

lemma p2_shift53: "(2::real) powi e * 2 powi (- 53) = 2 powi (e - 53)"
  using p2_add [of e "- 53"] by simp

lemma round_scaled_le:
  assumes "0 < U" "x \<le> of_int k * U"
  shows "of_int (round_even (x / U)) * U \<le> of_int k * U"
proof -
  have "x / U \<le> of_int k" using assms by (simp add: pos_divide_le_eq)
  then have "round_even (x / U) \<le> k" by (rule round_even_le)
  then have "real_of_int (round_even (x / U)) \<le> of_int k" by (simp only: of_int_le_iff)
  then show ?thesis using assms(1) by (simp only: mult_le_cancel_right_pos)
qed

lemma round_scaled_below_half:
  assumes "0 < U" "x < (of_int k - 1/2) * U"
  shows "of_int (round_even (x / U)) * U \<le> (of_int k - 1) * U"
proof -
  have "x / U < of_int k - 1/2" using assms by (simp add: pos_divide_less_eq)
  then have "round_even (x / U) \<le> k - 1" by (rule round_even_below_half)
  then have "real_of_int (round_even (x / U)) \<le> of_int (k - 1)" by (simp only: of_int_le_iff)
  then have "real_of_int (round_even (x / U)) \<le> of_int k - 1" by simp
  then show ?thesis using assms(1) by (simp only: mult_le_cancel_right_pos)
qed

lemma draw_scaled_below:
  assumes u: "round_binary64 u = Num u" "0 \<le> u" "u < 1" and n: "0 < (n::nat)" "n < 2 ^ 53"
  shows "\<exists>y. round_binary64 (u * real n) = Num y \<and> 0 \<le> y \<and> y < real n"
proof (cases "u = 0")
  case True
  then show ?thesis using n(1) by (simp add: round_binary64_def)
next
  case False
  define x where "x = u * real n"
  define e where "e = exponent x"
  define U where "U = (2::real) powi (e - 52)"
  define y where "y = of_int (round_even (x / U)) * U"
  have upos: "0 < u" using False u(2) by simp
  have xpos: "0 < x" using upos n(1) by (simp add: x_def)
  have x0: "x \<noteq> 0" using xpos by simp
  have ax: "\<bar>x\<bar> = x" using xpos by simp
  have Upos: "0 < U" by (simp add: U_def)
  have ulp: "ulp x = U" by (simp add: ulp_def U_def e_def)
  note eb = exponent_bounds [OF x0, folded e_def, unfolded ax]
  note mb = round_even_mantissa [OF xpos, unfolded ulp, folded e_def]
  have y0: "0 \<le> y" using mb(1) Upos by (simp add: y_def)
  have xlt: "x < real n" using u(3) n(1) by (simp add: x_def)
  have one: "u \<le> 1 - 2 powi (- 53)" using u(1) u(3) by (rule below_one)
  have "u * real n \<le> (1 - 2 powi (- 53)) * real n" using one by (rule mult_right_mono) simp
  then have xle: "x \<le> real n - real n * 2 powi (- 53)" by (simp add: x_def algebra_simps)
  from nat_binade [OF n] obtain E where E: "E \<le> 52" "2 ^ E \<le> n" "n < 2 ^ (E + 1)" .
  have nlo: "2 powi (int E) \<le> real n"
    using E(2) by (metis of_nat_le_iff of_nat_numeral of_nat_power power_int_of_nat)
  have nhi: "real n < 2 powi (int E + 1)"
  proof -
    have "real n < real (2 ^ (E + 1))" using E(3) by (simp only: of_nat_less_iff)
    also have "real (2 ^ (E + 1)) = 2 powi (int (E + 1))" by (simp only: power_int_of_nat) simp
    finally show ?thesis by (simp add: add.commute)
  qed
  have eE: "e \<le> int E"
  proof (cases "- 1022 < e")
    case True
    from eb(3) [OF True] xlt nhi have "(2::real) powi e < 2 powi (int E + 1)" by linarith
    then have "e < int E + 1" by (simp only: p2_less_iff)
    then show ?thesis by simp
  next
    case False
    with eb(1) show ?thesis by simp
  qed
  have top: "y \<le> 2 powi (e + 1)"
  proof -
    have "real_of_int (round_even (x / U)) \<le> real_of_int (2 ^ 53)"
      using mb(2) by (simp only: of_int_le_iff)
    then have "real_of_int (round_even (x / U)) \<le> 2 ^ 53" by simp
    then have "y \<le> 2 ^ 53 * U" unfolding y_def using Upos by (simp only: mult_le_cancel_right_pos)
    then show ?thesis by (simp only: U_def p2_53)
  qed
  have ylt: "y < real n"
  proof (cases "e = int E")
    case True
    define N where "N = int n * 2 ^ (52 - E)"
    have g: "real n = of_int N * U"
      unfolding N_def U_def True using E(1) by (rule nat_on_grid)
    have "- 1022 < e" using True by simp
    from eb(3) [OF this] have "2 powi (int E) \<le> x" by (simp only: True)
    with xlt have strict: "2 powi (int E) < real n" by linarith
    have "2 powi (int E) * (2::real) powi (- 53) < real n * 2 powi (- 53)"
      using strict by (simp only: mult_less_cancel_right_pos [OF p2_pos])
    then have "(2::real) powi (int E - 53) < real n * 2 powi (- 53)" by (simp only: p2_shift53)
    moreover have "(2::real) powi (int E - 53) * 2 = U"
      unfolding U_def True by (rule p2_half)
    ultimately have "U / 2 < real n * 2 powi (- 53)" by linarith
    with xle have "x < real n - U / 2" by linarith
    also have "real n - U / 2 = (of_int N - 1/2) * U" by (simp add: g algebra_simps)
    finally have "x < (of_int N - 1/2) * U" .
    with Upos have "y \<le> (of_int N - 1) * U" unfolding y_def by (rule round_scaled_below_half)
    also have "(of_int N - 1) * U = real n - U" by (simp add: g algebra_simps)
    finally show ?thesis using Upos by linarith
  next
    case False
    with eE have lt: "e + 1 \<le> int E" by simp
    show ?thesis
    proof (cases "2 powi (int E) < real n")
      case True
      have "(2::real) powi (e + 1) \<le> 2 powi (int E)" using lt by (rule p2_mono)
      with top True show ?thesis by linarith
    next
      case nE: False
      with nlo have nE: "real n = 2 powi (int E)" by linarith
      show ?thesis
      proof (cases "e + 1 = int E")
        case True
        have ee: "e - 52 = int E - 53" using True by linarith
        have UE: "U = 2 powi (int E - 53)" by (simp only: U_def ee)
        have "2 ^ 53 * U = 2 powi (e + 1)" unfolding U_def by (rule p2_53)
        then have E53: "2 ^ 53 * U = 2 powi (int E)" by (simp only: True)
        have "real n * 2 powi (- 53) = U" unfolding nE UE by (rule p2_shift53)
        with xle have "x \<le> real n - U" by linarith
        also have "real n - U = of_int (2 ^ 53 - 1) * U" using E53 nE by (simp add: algebra_simps)
        finally have "x \<le> of_int (2 ^ 53 - 1) * U" .
        with Upos have "y \<le> of_int (2 ^ 53 - 1) * U" unfolding y_def by (rule round_scaled_le)
        also have "of_int (2 ^ 53 - 1) * U = real n - U" using E53 nE by (simp add: algebra_simps)
        finally show ?thesis using Upos by linarith
      next
        case False
        with lt have "e + 1 < int E" by simp
        then have "(2::real) powi (e + 1) < 2 powi (int E)" by (rule p2_strict)
        with top nE show ?thesis by linarith
      qed
    qed
  qed
  have "real n < 2 ^ 53" using n(2) by (metis of_nat_less_iff of_nat_numeral of_nat_power)
  also have "(2::real) ^ 53 < 2 ^ 1024" by simp
  finally have "real n < 2 ^ 1024" .
  with ylt have fin: "\<not> 2 ^ 1024 \<le> y" by linarith
  have "round_binary64 x = Num y"
    using fin by (simp add: round_binary64_pos [OF xpos] ulp y_def)
  with y0 ylt show ?thesis unfolding x_def by blast
qed

subsection \<open>Rounding at a given exponent\<close>

lemma round_binary64_at:
  assumes "x \<noteq> 0" "- 1022 \<le> e" "\<bar>x\<bar> < 2 powi (e + 1)" "2 powi e \<le> \<bar>x\<bar> \<or> e = - 1022"
  shows "round_binary64 x =
     (let y = of_int (round_even (\<bar>x\<bar> / 2 powi (e - 52))) * 2 powi (e - 52)
      in if 2 ^ 1024 \<le> y then (if 0 < x then PosInf else NegInf)
         else Num (if 0 < x then y else - y))"
  using assms(1) exponent_eq [OF assms] by (simp add: round_binary64_def ulp_def)

section \<open>Properties of the arithmetic\<close>

lemma rnd_zero [simp]: "rnd md 0 = Num 0"
  by (cases md) (simp_all add: round_binary64_def)

lemma rnd_idem: "rnd md x = Num y \<Longrightarrow> rnd md y = Num y"
  by (cases md) (auto intro: round_binary64_idem)

lemma rnd_nat: "n < 2 ^ 53 \<Longrightarrow> rnd md (real n) = Num (real n)"
  by (cases md) (simp_all add: round_binary64_nat)

lemma round_binary64_Ints:
  assumes "x \<in> \<int>" "\<bar>x\<bar> < 2 ^ 53"
  shows "round_binary64 x = Num x"
proof -
  from assms(1) obtain k where k: "x = of_int k" by (auto elim: Ints_cases)
  show ?thesis
  proof (cases "0 \<le> k")
    case True
    then have x: "x = real (nat k)" using k by simp
    have "real (nat k) < 2 ^ 53" using assms(2) x by simp
    then have "nat k < 2 ^ 53" by (metis of_nat_less_iff of_nat_numeral of_nat_power)
    then show ?thesis unfolding x by (rule round_binary64_nat)
  next
    case False
    then have x: "x = - real (nat (- k))" using k by simp
    have "real (nat (- k)) < 2 ^ 53" using assms(2) x by simp
    then have "nat (- k) < 2 ^ 53" by (metis of_nat_less_iff of_nat_numeral of_nat_power)
    then have "round_binary64 (real (nat (- k))) = Num (real (nat (- k)))"
      by (rule round_binary64_nat)
    then show ?thesis unfolding x by (simp add: round_binary64_minus)
  qed
qed

subsection \<open>Some roundings\<close>

lemma tiny: "round_binary64 (1 / 2 ^ 1074) = Num (1 / 2 ^ 1074)"
  by (subst round_binary64_at [where e = "- 1022"]) (simp_all add: round_even_def)

lemma tiny_draw: "round_binary64 (3 / 4 * (1 / 2 ^ 1074)) = Num (1 / 2 ^ 1074)"
  by (subst round_binary64_at [where e = "- 1022"]) (simp_all add: round_even_def)

lemma three_quarters: "round_binary64 (3 / 4) = Num (3 / 4)"
  by (subst round_binary64_at [where e = "- 1"]) (simp_all add: round_even_def)

lemma huge: "round_binary64 (2 ^ 1023) = Num (2 ^ 1023)"
  by (subst round_binary64_at [where e = 1023]) (simp_all add: round_even_def)

lemma huge_sum: "round_binary64 (2 ^ 1023 + 2 ^ 1023) = PosInf"
  by (subst round_binary64_at [where e = 1024]) (simp_all add: round_even_def)

lemma below_three: "round_binary64 (3 - 1 / 2 ^ 52) = Num 3"
  by (subst round_binary64_at [where e = 1]) (simp_all add: round_even_def)

lemma last_draw: "round_binary64 (1 - 1 / 2 ^ 52) = Num (1 - 1 / 2 ^ 52)"
  by (subst round_binary64_at [where e = "- 1"]) (simp_all add: round_even_def)

lemma one_half: "round_binary64 (1 / 2) = Num (1 / 2)"
  by (subst round_binary64_at [where e = "- 1"]) (simp_all add: round_even_def)

section \<open>Properties of Random\<close>

text \<open>
  C5. In binary64 \<open>Range\<close> reaches the bound it documents as exclusive: the draw
  \<open>1 - 2^-52\<close> is a binary64 number below 1, and on it \<open>Range(2, 3)\<close> is \<open>3\<close>,
  because \<open>3 - 2^-52\<close> lies half way between two binary64 numbers and rounds to the
  even one. \<open>RangeInt(2, 3)\<close> is \<open>3\<close> on the same draw.
\<close>

theorem Range_reaches_max:
  "rnd Binary64 (1 - 1 / 2 ^ 52) = Num (1 - 1 / 2 ^ 52)
   \<and> Range Binary64 (1 - 1 / 2 ^ 52) (Num 2) (Num 3) = Num 3
   \<and> RangeInt Binary64 (1 - 1 / 2 ^ 52) (Num 2) (Num 3) = Num 3"
proof -
  have d: "jsub Binary64 (Num 3) (Num 2) = Num 1"
    by (simp add: jsub_def round_binary64_Ints)
  have m: "jmul Binary64 (Num (1 - 1 / 2 ^ 52)) (Num 1) = Num (1 - 1 / 2 ^ 52)"
    by (simp only: jmul.simps rnd.simps mult_1_right last_draw)
  have "(1 - 1 / 2 ^ 52 + 2 :: real) = 3 - 1 / 2 ^ 52" by simp
  then have s: "jadd Binary64 (Num (1 - 1 / 2 ^ 52)) (Num 2) = Num 3"
    by (simp only: jadd.simps rnd.simps below_three)
  have R: "Range Binary64 (1 - 1 / 2 ^ 52) (Num 2) (Num 3) = Num 3"
    by (simp only: Range_def d m s)
  have RI: "RangeInt Binary64 (1 - 1 / 2 ^ 52) (Num 2) (Num 3) = Num 3"
    by (simp only: RangeInt_def d m s) simp
  from R RI last_draw show ?thesis by simp
qed

subsection \<open>The index drawn by In\<close>

lemma rnd_draw_scaled:
  assumes "rnd md u = Num u" "0 \<le> u" "u < 1" "0 < (n::nat)" "n < 2 ^ 53"
  shows "\<exists>y. rnd md (u * real n) = Num y \<and> 0 \<le> y \<and> y < real n"
proof (cases md)
  case Exact
  have "u * real n < 1 * real n" using assms(3,4) by (intro mult_strict_right_mono) simp_all
  with assms(2) Exact show ?thesis by simp
next
  case Binary64
  with assms show ?thesis by (simp add: draw_scaled_below)
qed

lemma draw_index:
  assumes "rnd md u = Num u" "0 \<le> u" "u < 1" "0 < (n::nat)" "n < 2 ^ 53"
  shows "\<exists>i<n. Math_floor (Range md u (Num 0) (Num (real n))) = Num (real i)"
proof -
  from rnd_draw_scaled [OF assms] obtain y
    where y: "rnd md (u * real n) = Num y" "0 \<le> y" "y < real n" by blast
  have d: "jsub md (Num (real n)) (Num 0) = Num (real n)"
    using assms(5) by (simp add: jsub_def rnd_nat)
  have m: "jmul md (Num u) (Num (real n)) = Num y" using y(1) by simp
  have s: "jadd md (Num y) (Num 0) = Num y" using rnd_idem [OF y(1)] by simp
  have R: "Range md u (Num 0) (Num (real n)) = Num y"
    by (simp only: Range_def d m s)
  have f0: "0 \<le> \<lfloor>y\<rfloor>" using y(2) by simp
  have "\<lfloor>y\<rfloor> < int n" using y(3) by (simp add: floor_less_iff)
  with f0 have i: "nat \<lfloor>y\<rfloor> < n" by linarith
  have "Math_floor (Num y) = Num (real (nat \<lfloor>y\<rfloor>))" using f0 by simp
  with i R show ?thesis by auto
qed

lemma array_get_nat: "i < length xs \<Longrightarrow> array_get xs (Num (real i)) = xs ! i"
  by (simp add: array_get_def)

lemma charAt_nat: "i < length s \<Longrightarrow> charAt s (Num (real i)) = [s ! i]"
  by (simp add: charAt_def)

text \<open>
  C10. For a non-empty array, and for a non-empty string, and a draw \<open>u\<close> that is a
  number of the arithmetic with \<open>0 \<le> u < 1\<close>, the index
  \<open>Math.floor(Range(0, length))\<close> that \<open>Random.In\<close> computes is a whole number below the
  length, and \<open>Random.In\<close> returns the element (the character) at that index. This
  holds in binary64 as in exact arithmetic. The length of an array or string of the
  language is below \<open>2^53\<close>.
\<close>

theorem In_returns_element:
  assumes "rnd md u = Num u" and "0 \<le> u" and "u < 1"
  shows "(xs \<noteq> [] \<and> length xs < 2 ^ 53 \<longrightarrow>
            (\<exists>i<length xs. Math_floor (Range md u (Num 0) (Num (real (length xs)))) = Num (real i)
               \<and> In md u (Array xs) = Inr (xs ! i)))
       \<and> (s \<noteq> [] \<and> length s < 2 ^ 53 \<longrightarrow>
            (\<exists>i<length s. Math_floor (Range md u (Num 0) (Num (real (length s)))) = Num (real i)
               \<and> In md u (Str s) = Inr (Str [s ! i])))"
proof (intro conjI impI)
  assume "xs \<noteq> [] \<and> length xs < 2 ^ 53"
  then have "0 < length xs" "length xs < 2 ^ 53" by simp_all
  from draw_index [OF assms this] obtain i where i: "i < length xs"
    "Math_floor (Range md u (Num 0) (Num (real (length xs)))) = Num (real i)" by blast
  have "In md u (Array xs) = Inr (xs ! i)"
    by (simp add: In_def i(2) array_get_nat [OF i(1)])
  with i show "\<exists>i<length xs. Math_floor (Range md u (Num 0) (Num (real (length xs)))) = Num (real i)
      \<and> In md u (Array xs) = Inr (xs ! i)" by blast
next
  assume "s \<noteq> [] \<and> length s < 2 ^ 53"
  then have "0 < length s" "length s < 2 ^ 53" by simp_all
  from draw_index [OF assms this] obtain i where i: "i < length s"
    "Math_floor (Range md u (Num 0) (Num (real (length s)))) = Num (real i)" by blast
  have "In md u (Str s) = Inr (Str [s ! i])"
    by (simp add: In_def i(2) charAt_nat [OF i(1)])
  with i show "\<exists>i<length s. Math_floor (Range md u (Num 0) (Num (real (length s)))) = Num (real i)
      \<and> In md u (Str s) = Inr (Str [s ! i])" by blast
qed

theorem In_returns_element_witness:
  "In Binary64 (1/2) (Array [Null, Bool True, Number (Num 7), Undefined]) = Inr (Number (Num 7))
   \<and> In Binary64 (1/2) (Str ''abcd'') = Inr (Str ''c'')"
  using In_returns_element [of Binary64 "1/2" "[Null, Bool True, Number (Num 7), Undefined]" "''abcd''"]
  by (auto simp: one_half Range_def jsub_def round_binary64_Ints)

text \<open>
  C4. On the empty array and on the object without properties \<open>Random.In\<close> returns
  \<open>undefined\<close>; on the empty string it returns the empty string, which is not
  \<open>undefined\<close>. None of the three calls raises.
\<close>

theorem In_empty_inputs:
  "In md u (Array []) = Inr Undefined
   \<and> In md u (Object []) = Inr Undefined
   \<and> In md u (Str []) = Inr (Str [])"
  by (simp add: In_def Range_def jsub_def array_get_def charAt_def)

subsection \<open>The scan of WeightedSelect\<close>












lemma WeightedSelect_single:
  assumes "jadd md (Num 0) w = Num t" and "jmul md (Num u) (Num t) = Num r" and "\<not> r < t"
  shows "WeightedSelect md u [x] [w] = None"
proof -
  have "WeightedSelect md u [x] [w] = WeightedSelect_loop md (Num r) [x] [w] 0 (Num 0)"
    by (simp add: WeightedSelect_def reduce_def assms(1,2) del: jadd.simps jmul.simps)
  also have "\<dots> = WeightedSelect_loop md (Num r) [x] [w] 1 (Num t)"
    using assms(3)
    by (subst WeightedSelect_loop.simps) (simp add: num_at_def assms(1) del: jadd.simps)
  also have "\<dots> = None"
    by (subst WeightedSelect_loop.simps) simp
  finally show ?thesis .
qed

text \<open>
  C9. In binary64 the loop of \<open>WeightedSelect\<close> can run off the end on weights that
  are non-negative with a positive total: for the single weight \<open>2^-1074\<close>, the
  smallest positive number, and the draw \<open>3/4\<close>, the product \<open>randomNum\<close> rounds up to
  the total, no cumulative weight exceeds it, and the method returns \<open>undefined\<close>.
\<close>

theorem WeightedSelect_runs_off_the_end:
  "rnd Binary64 (3 / 4) = Num (3 / 4)
   \<and> rnd Binary64 (1 / 2 ^ 1074) = Num (1 / 2 ^ 1074)
   \<and> WeightedSelect Binary64 (3 / 4) [''a''] [Num (1 / 2 ^ 1074)] = None"
proof -
  have u: "rnd Binary64 (3 / 4) = Num (3 / 4)"
    by (simp only: rnd.simps three_quarters)
  have w: "rnd Binary64 (1 / 2 ^ 1074) = Num (1 / 2 ^ 1074)"
    by (simp only: rnd.simps tiny)
  have total: "jadd Binary64 (Num 0) (Num (1 / 2 ^ 1074)) = Num (1 / 2 ^ 1074)"
    by (simp only: jadd.simps add_0 w)
  have r: "jmul Binary64 (Num (3 / 4)) (Num (1 / 2 ^ 1074)) = Num (1 / 2 ^ 1074)"
    by (simp only: jmul.simps rnd.simps tiny_draw)
  have "WeightedSelect Binary64 (3 / 4) [''a''] [Num (1 / 2 ^ 1074)] = None"
    using total r by (rule WeightedSelect_single) simp
  with u w show ?thesis by (intro conjI)
qed

section \<open>Properties of Arithma\<close>

text \<open>
  C1, as the code has it. On an empty array no method fails: \<open>Mean\<close> returns NaN, \<open>Sum\<close>
  returns 0, \<open>Max\<close> returns \<open>-Infinity\<close> and \<open>Min\<close> returns \<open>+Infinity\<close>, and the store is
  as before.
\<close>

theorem empty_statistics_values:
  assumes "h ! a = []"
  shows "Mean md h a = (NaN, h) \<and> Sum md h a = (Num 0, h)
       \<and> Max h a = (NegInf, h) \<and> Min h a = (PosInf, h)"
  using assms
  by (simp add: Mean_def Sum_def Max_def Min_def reduce_def Math_max_def Math_min_def)

theorem empty_statistics_values_witness:
  "Mean Binary64 [[Num 1], []] 1 = (NaN, [[Num 1], []])
   \<and> Sum Binary64 [[Num 1], []] 1 = (Num 0, [[Num 1], []])
   \<and> Max [[Num 1], []] 1 = (NegInf, [[Num 1], []])
   \<and> Min [[Num 1], []] 1 = (PosInf, [[Num 1], []])"
  using empty_statistics_values [of "[[Num 1], []]" 1 Binary64] by simp

text \<open>
  C1, as stated, fails: called on the empty array, the only object of the store, \<open>Mean\<close>
  returns NaN and \<open>Sum\<close>, \<open>Max\<close>, \<open>Min\<close> return the identity elements 0, \<open>-Infinity\<close>,
  \<open>+Infinity\<close>.
\<close>

theorem empty_statistics_counterexample:
  "fst (Mean Binary64 [[]] 0) = NaN \<and> fst (Sum Binary64 [[]] 0) = Num 0
   \<and> fst (Max [[]] 0) = NegInf \<and> fst (Min [[]] 0) = PosInf"
  by (simp add: Mean_def Sum_def Max_def Min_def reduce_def Math_max_def Math_min_def)

subsection \<open>Median\<close>

lemma Median_pair:
  assumes "jsub md (Num a) (Num b) = Num 0"
  shows "fst (Median md [[Num a, Num b]] 0) = jdiv md (jadd md (Num a) (Num b)) (Num 2)"
proof -
  have srt: "sort_by (\<lambda>a b. jsub md a b) [Num a, Num b] = [Num a, Num b]"
    by (simp add: sort_by_def assms jgt_def del: jadd.simps)
  show ?thesis
    by (simp add: Median_def spread_copy_def alloc_def array_sort_def Let_def srt num_at_def
        del: jadd.simps jdiv.simps)
qed

text \<open>
  C6. In binary64 the average of the two middle elements overflows: \<open>2^1023\<close> is a
  binary64 number, and \<open>Median\<close> of the array holding it twice is \<open>+Infinity\<close>, since the
  sum \<open>2^1024\<close> is formed before the division by 2.
\<close>

theorem Median_overflows:
  "rnd Binary64 (2 ^ 1023) = Num (2 ^ 1023)
   \<and> fst (Median Binary64 [[Num (2 ^ 1023), Num (2 ^ 1023)]] 0) = PosInf"
proof -
  have d: "rnd Binary64 (2 ^ 1023) = Num (2 ^ 1023)"
    by (simp only: rnd.simps huge)
  have c: "jsub Binary64 (Num (2 ^ 1023)) (Num (2 ^ 1023)) = Num 0"
    by (simp only: jsub_def jneg.simps jadd.simps add.right_inverse rnd_zero)
  have s: "jadd Binary64 (Num (2 ^ 1023)) (Num (2 ^ 1023)) = PosInf"
    by (simp only: jadd.simps rnd.simps huge_sum)
  have "fst (Median Binary64 [[Num (2 ^ 1023), Num (2 ^ 1023)]] 0)
      = jdiv Binary64 (jadd Binary64 (Num (2 ^ 1023)) (Num (2 ^ 1023))) (Num 2)"
    using c by (rule Median_pair)
  also have "\<dots> = PosInf" by (simp only: s) simp
  finally have "fst (Median Binary64 [[Num (2 ^ 1023), Num (2 ^ 1023)]] 0) = PosInf" .
  with d show ?thesis by (intro conjI)
qed

subsection \<open>The input array is left as it was\<close>

lemma Median_store:
  "a < length h \<Longrightarrow> snd (Median md h a) = h @ [sort_by (\<lambda>a b. jsub md a b) (h ! a)]"
  by (simp add: Median_def spread_copy_def alloc_def array_sort_def Let_def nth_append)

lemma Mean_store: "snd (Mean md h a) = h"
  by (simp add: Mean_def Let_def)

lemma Variance_store:
  "snd (Variance md h a)
     = h @ [map (\<lambda>x. Math_pow2 md (jsub md x (fst (Mean md h a)))) (h ! a)]"
  by (simp add: Variance_def Mean_def array_map_def alloc_def Let_def)

lemma StandardDeviation_store: "snd (StandardDeviation md h a) = snd (Variance md h a)"
  by (simp add: StandardDeviation_def Let_def split_beta)

text \<open>
  C7. After a call of \<open>Mean\<close>, \<open>Median\<close>, \<open>Variance\<close>, \<open>StandardDeviation\<close>, \<open>Max\<close>, \<open>Min\<close>
  or \<open>Sum\<close> on a live array, the input array has the same elements in the same order as
  before, and so has every other array that existed before the call: the store has only
  grown. \<open>Median\<close> sorts the copy it allocates.
\<close>

theorem statistics_leave_input_unchanged:
  assumes "a < length h"
  shows "\<forall>f\<in>{Mean md, Median md, Variance md, StandardDeviation md, Max, Min, Sum md}.
           snd (f h a) ! a = h ! a \<and> take (length h) (snd (f h a)) = h"
  using assms
  by (simp add: Mean_store Median_store StandardDeviation_store Variance_store nth_append
      Max_def Min_def Sum_def)

theorem statistics_leave_input_unchanged_witness:
  "snd (Median Binary64 [[Num 3, Num 1, Num 2]] 0) ! 0 = [Num 3, Num 1, Num 2]
   \<and> snd (Variance Binary64 [[Num 3, Num 1, Num 2]] 0) ! 0 = [Num 3, Num 1, Num 2]
   \<and> snd (Sum Binary64 [[Num 3, Num 1, Num 2]] 0) ! 0 = [Num 3, Num 1, Num 2]"
  using statistics_leave_input_unchanged [of 0 "[[Num 3, Num 1, Num 2]]" Binary64] by simp

section \<open>Properties of the vectors\<close>

text \<open>
  C2. \<open>Normalize\<close> raises: on the zero vector, \<open>Vector2.Normalize\<close> and
  \<open>Vector3.Normalize\<close> end in a \<open>TypeError\<close> and allocate nothing, because the class
  defines \<open>Length\<close> and not \<open>length\<close>.
\<close>

theorem Normalize_zero_raises:
  "Vector2_Normalize Binary64 [Vector2 (Num 0) (Num 0)] 0
     = (Inl TypeError, [Vector2 (Num 0) (Num 0)])
   \<and> Vector3_Normalize Binary64 [Vector3 (Num 0) (Num 0) (Num 0)] 0
     = (Inl TypeError, [Vector3 (Num 0) (Num 0) (Num 0)])"
  by (simp add: Vector2_Normalize_def Vector2_number_method_def
      Vector3_Normalize_def Vector3_number_method_def)



end
